theory Spec2Isabelle
  imports Complex_Main "HOL-Library.AList"
begin

section \<open>JavaScript values\<close>

text \<open>
  The dashboard is TypeScript running on untyped data: REST payloads, push messages and
  React state typed \<open>any\<close>. Values are therefore modelled by one datatype of JavaScript
  values. A JavaScript number is an IEEE double; here a finite number is a \<open>real\<close>, so
  the arithmetic of the model is exact, and the three non-finite doubles are constructors
  of their own. There is no negative zero in the model.
\<close>

datatype jsnumber = Fin real | NaN | PosInf | NegInf

datatype jsvalue =
    Undefined
  | Null
  | Bool bool
  | Number jsnumber
  | Str string
  | Arr "jsvalue list"
  | Obj "(string \<times> jsvalue) list"

text \<open>
  An object is the list of its own enumerable properties in enumeration order (the order
  \<open>Object.keys\<close> reports); a property read takes the first entry with the key.
\<close>

fun num_truthy :: "jsnumber \<Rightarrow> bool" where
  "num_truthy (Fin r) = (r \<noteq> 0)"
| "num_truthy NaN = False"
| "num_truthy PosInf = True"
| "num_truthy NegInf = True"

fun truthy :: "jsvalue \<Rightarrow> bool" where
  "truthy Undefined = False"
| "truthy Null = False"
| "truthy (Bool b) = b"
| "truthy (Number n) = num_truthy n"
| "truthy (Str s) = (s \<noteq> [])"
| "truthy (Arr xs) = True"
| "truthy (Obj kvs) = True"

text \<open>\<open>a || b\<close> on values.\<close>

definition js_or :: "jsvalue \<Rightarrow> jsvalue \<Rightarrow> jsvalue" where
  "js_or a b = (if truthy a then a else b)"

text \<open>The decimal numeral of an array index, as \<open>Object.keys\<close> spells it.\<close>

fun decimal :: "nat \<Rightarrow> string" where
  "decimal n =
     (if n < 10 then [char_of (48 + n)]
      else decimal (n div 10) @ [char_of (48 + n mod 10)])"

declare decimal.simps [simp del]

text \<open>
  \<open>Object.keys(v)\<close> for a value that is neither \<open>null\<close> nor \<open>undefined\<close> (every call
  in the source guards these two with \<open>|| {}\<close> or \<open>&&\<close>): own keys of an object, the
  indices of an array or of a string, nothing for a number or a boolean.
\<close>

fun Object_keys :: "jsvalue \<Rightarrow> string list" where
  "Object_keys (Obj kvs) = map fst kvs"
| "Object_keys (Arr xs) = map decimal [0..<length xs]"
| "Object_keys (Str s) = map decimal [0..<length s]"
| "Object_keys v = []"

text \<open>
  The property read \<open>v[k]\<close>. On \<open>null\<close> and \<open>undefined\<close> JavaScript throws; the
  model returns \<open>Undefined\<close> there, which is what the optional chaining \<open>v?.[k]\<close> gives,
  and the places of the source that read without the guard are modelled with the throw
  written out (see \<open>destructure\<close>).
\<close>

fun js_get :: "jsvalue \<Rightarrow> string \<Rightarrow> jsvalue" where
  "js_get (Obj kvs) k = (case map_of kvs k of Some v \<Rightarrow> v | None \<Rightarrow> Undefined)"
| "js_get (Arr xs) k =
     (if k = ''length'' then Number (Fin (real (length xs)))
      else case find (\<lambda>i. decimal i = k) [0..<length xs] of
             Some i \<Rightarrow> xs ! i
           | None \<Rightarrow> Undefined)"
| "js_get (Str s) k =
     (if k = ''length'' then Number (Fin (real (length s)))
      else case find (\<lambda>i. decimal i = k) [0..<length s] of
             Some i \<Rightarrow> Str [s ! i]
           | None \<Rightarrow> Undefined)"
| "js_get v k = Undefined"

text \<open>\<open>Object.values(v)\<close>: the values of the own keys, in the same order.\<close>

definition Object_values :: "jsvalue \<Rightarrow> jsvalue list" where
  "Object_values v = map (js_get v) (Object_keys v)"

section \<open>Canonical coordinate model\<close>

text \<open>
  Zone geometry lives in a fixed 1020 by 600 space. \<open>handleCanvasClick\<close> converts the
  pointer position with
  \<^verbatim>\<open>Math.round(((e.clientX - rect.left) / rect.width) * 1020)\<close>
  and the same with \<open>clientY\<close>, \<open>rect.top\<close>, \<open>rect.height\<close> and 600.

  The source computes the quotient and the product in IEEE doubles, each operation
  rounded; the model computes them exactly. The two agree wherever the exact value is
  not close to a half (on the canvas at its own size, for one), and can differ by one
  unit where it is: with height 240 and a pointer 11 below the top the exact product is
  27.5 and rounds to 28, the double product is just below and rounds to 27. For a
  rectangle that is tiny against its offset the doubles lose the position altogether.
  So the model gives the conversion up to the rounding of doubles, and nothing below is
  stated about the accuracy of the conversion: the theorems on the editor take the
  converted points as given.
\<close>

record DOMRect =
  rect_left :: real
  rect_top :: real
  rect_width :: real
  rect_height :: real

record Point =
  px :: jsvalue
  py :: jsvalue

text \<open>\<open>Math.round\<close> rounds to the nearest integer, a half towards plus infinity.\<close>

definition Math_round :: "real \<Rightarrow> int" where
  "Math_round t = \<lfloor>t + 1 / 2\<rfloor>"

text \<open>
  Division of two finite numbers. A zero divisor does not raise in JavaScript: the
  quotient is \<open>NaN\<close> or an infinity.
\<close>

definition js_div :: "real \<Rightarrow> real \<Rightarrow> jsnumber" where
  "js_div a b =
     (if b = 0 then (if a = 0 then NaN else if 0 < a then PosInf else NegInf)
      else Fin (a / b))"

text \<open>Multiplication by a positive constant, then \<open>Math.round\<close>.\<close>

fun scale_round :: "jsnumber \<Rightarrow> real \<Rightarrow> jsnumber" where
  "scale_round (Fin q) c = Fin (of_int (Math_round (q * c)))"
| "scale_round n c = n"

definition toCanonical :: "DOMRect \<Rightarrow> real \<Rightarrow> real \<Rightarrow> Point" where
  "toCanonical rect clientX clientY =
     \<lparr> px = Number (scale_round (js_div (clientX - rect_left rect) (rect_width rect)) 1020),
       py = Number (scale_round (js_div (clientY - rect_top rect) (rect_height rect)) 600) \<rparr>"

text \<open>The canvas at its own size, where screen and canonical coordinates coincide.\<close>

definition canvas_rect :: DOMRect where
  "canvas_rect = \<lparr> rect_left = 0, rect_top = 0, rect_width = 1020, rect_height = 600 \<rparr>"

section \<open>Permissions\<close>

text \<open>
  \<open>lib/permissions\<close>. A user is whatever the auth store holds (typed \<open>any\<close>), so it is
  a \<open>jsvalue\<close>; \<open>normalizeUserPermissions\<close> keeps the role as it is and keeps of
  \<open>page_permissions\<close> the entries that are known page keys.
\<close>

definition AVAILABLE_PAGES :: "string list" where
  "AVAILABLE_PAGES =
     [''dashboard'', ''reports'', ''api_docs'', ''audit'', ''cameras'', ''registrations'', ''users'']"

record UserPermissions =
  page_permissions :: "jsvalue list"
  role :: jsvalue

definition normalizeUserPermissions :: "jsvalue \<Rightarrow> UserPermissions option" where
  "normalizeUserPermissions user =
     (if \<not> truthy user then None
      else let raw = js_or (js_get user ''page_permissions'') (Arr []);
               filtered = (case raw of
                             Arr ps \<Rightarrow> filter (\<lambda>p. list_ex (\<lambda>ap. Str ap = p) AVAILABLE_PAGES) ps
                           | _ \<Rightarrow> [])
           in Some \<lparr> page_permissions = filtered, role = js_get user ''role'' \<rparr>)"

definition hasPagePermission :: "jsvalue \<Rightarrow> string \<Rightarrow> bool" where
  "hasPagePermission userOrPermissions page =
     (case normalizeUserPermissions userOrPermissions of
        None \<Rightarrow> False
      | Some userPermissions \<Rightarrow>
          if role userPermissions = Str ''admin'' then True
          else Str page \<in> set (page_permissions userPermissions))"

section \<open>Zone geometry store\<close>

text \<open>
  \<open>type Zones = Record<string, [Point, Point] | null>\<close>. A key of the record is either
  absent (it reads \<open>undefined\<close>: \<open>None\<close>), present with \<open>null\<close> (\<open>Some None\<close>) or
  present with two points. The source tells the first two apart
  (\<open>!== undefined\<close>, \<open>in\<close>), so the model does.
\<close>

type_synonym Zone = "Point \<times> Point"
type_synonym Zones = "string \<rightharpoonup> Zone option"

definition FIXED_ZONE_NAMES :: "string list" where
  "FIXED_ZONE_NAMES = [''A'', ''B'', ''C'']"

text \<open>The React state of \<open>ZoneMappingModal\<close> that the editor operations read and write.\<close>

record editor =
  zones :: Zones
  currentZone :: "string option"
  tempPoints :: "Point list"

text \<open>\<open>useState<Zones>({})\<close>, \<open>useState(null)\<close>, \<open>useState([])\<close>.\<close>

definition initial_editor :: editor where
  "initial_editor = \<lparr> zones = Map.empty, currentZone = None, tempPoints = [] \<rparr>"

subsection \<open>Persistence bridge: load\<close>

text \<open>
  The test on the two coordinate arrays and the decoding, as written three times in the
  source: \<open>Array.isArray(p1) && Array.isArray(p2) && p1.length === 2 && p2.length === 2\<close>,
  then \<open>[{x: p1[0], y: p1[1]}, {x: p2[0], y: p2[1]}]\<close>, else \<open>null\<close>. The coordinates
  themselves are not inspected.
\<close>

definition zoneOfArrays :: "jsvalue \<Rightarrow> jsvalue \<Rightarrow> Zone option" where
  "zoneOfArrays p1 p2 =
     (case (p1, p2) of
        (Arr xs, Arr ys) \<Rightarrow>
          if length xs = 2 \<and> length ys = 2
          then Some (\<lparr> px = xs ! 0, py = xs ! 1 \<rparr>, \<lparr> px = ys ! 0, py = ys ! 1 \<rparr>)
          else None
      | _ \<Rightarrow> None)"

text \<open>
  \<open>const { p1, p2 } = v\<close>: a \<open>TypeError\<close> (\<open>None\<close>) when \<open>v\<close> is \<open>null\<close> or
  \<open>undefined\<close>, the two properties otherwise.
\<close>

fun destructure :: "jsvalue \<Rightarrow> (jsvalue \<times> jsvalue) option" where
  "destructure Undefined = None"
| "destructure Null = None"
| "destructure v = Some (js_get v ''p1'', js_get v ''p2'')"

text \<open>
  First pass of \<open>loadInitialData\<close>, one fixed name: a truthy \<open>data[name]\<close> assigns the
  slot, with the zone or with \<open>null\<close>. The value is truthy there, so the destructuring
  cannot throw.
\<close>

definition directMatch :: "jsvalue \<Rightarrow> string \<Rightarrow> Zones \<Rightarrow> Zones" where
  "directMatch data name loadedZones =
     (if truthy data \<and> truthy (js_get data name)
      then loadedZones(name \<mapsto> zoneOfArrays (js_get (js_get data name) ''p1'')
                                           (js_get (js_get data name) ''p2''))
      else loadedZones)"

text \<open>
  \<open>while (fillIndex < FIXED_ZONE_NAMES.length &&
          loadedZones[FIXED_ZONE_NAMES[fillIndex]] !== undefined) fillIndex++\<close>
\<close>

function skipAssigned :: "Zones \<Rightarrow> nat \<Rightarrow> nat" where
  "skipAssigned loadedZones fillIndex =
     (if fillIndex < length FIXED_ZONE_NAMES \<and> loadedZones (FIXED_ZONE_NAMES ! fillIndex) \<noteq> None
      then skipAssigned loadedZones (fillIndex + 1)
      else fillIndex)"
  by pat_completeness auto
termination
  by (relation "measure (\<lambda>(loadedZones, fillIndex). length FIXED_ZONE_NAMES - fillIndex)") auto

declare skipAssigned.simps [simp del]

text \<open>
  The \<open>try\<close> block of the second pass for one backend value. The \<open>catch\<close> turns the
  \<open>TypeError\<close> of the destructuring into \<open>null\<close>.
\<close>

definition decodeEntry :: "jsvalue \<Rightarrow> Zone option" where
  "decodeEntry v =
     (case destructure v of
        Some (p1, p2) \<Rightarrow> zoneOfArrays p1 p2
      | None \<Rightarrow> None)"

text \<open>
  Second pass: the loop over \<open>backendKeys\<close>. A key that is a fixed name is skipped; any
  other key takes the first slot that is still \<open>undefined\<close>, and the loop stops when
  there is none.
\<close>

fun fillSlots :: "jsvalue \<Rightarrow> string list \<Rightarrow> nat \<Rightarrow> Zones \<Rightarrow> Zones" where
  "fillSlots data [] fillIndex loadedZones = loadedZones"
| "fillSlots data (k # ks) fillIndex loadedZones =
     (if k \<in> set FIXED_ZONE_NAMES then fillSlots data ks fillIndex loadedZones
      else let i = skipAssigned loadedZones fillIndex in
           if i \<ge> length FIXED_ZONE_NAMES then loadedZones
           else fillSlots data ks (i + 1)
                  (loadedZones(FIXED_ZONE_NAMES ! i \<mapsto> decodeEntry (js_get data k))))"

text \<open>\<open>if (!(n in loadedZones)) loadedZones[n] = null\<close>\<close>

definition ensureSlot :: "string \<Rightarrow> Zones \<Rightarrow> Zones" where
  "ensureSlot n loadedZones =
     (if loadedZones n = None then loadedZones(n \<mapsto> None) else loadedZones)"

text \<open>The value \<open>loadedZones\<close> that \<open>loadInitialData\<close> builds from \<open>zonesRes.data\<close>.\<close>

definition normalizeZones :: "jsvalue \<Rightarrow> Zones" where
  "normalizeZones data =
     (let backendKeys = Object_keys (js_or data (Obj []));
          direct = fold (directMatch data) FIXED_ZONE_NAMES Map.empty;
          filled = fillSlots data backendKeys 0 direct
      in fold ensureSlot FIXED_ZONE_NAMES filled)"

text \<open>
  The two lists the spec's description of the load speaks of, in the spec's words: the
  remote keys that are not fixed names, in encounter order ("remaining unmatched remote
  keys"), and the fixed names without a truthy entry of their own in the payload, in
  the order A, B, C ("any fixed-name slot still unassigned").
\<close>

definition unmatchedKeys :: "jsvalue \<Rightarrow> string list" where
  "unmatchedKeys data =
     filter (\<lambda>k. k \<notin> set FIXED_ZONE_NAMES) (Object_keys (js_or data (Obj [])))"

definition unassignedSlots :: "jsvalue \<Rightarrow> string list" where
  "unassignedSlots data =
     filter (\<lambda>n. \<not> (truthy data \<and> truthy (js_get data n))) FIXED_ZONE_NAMES"

text \<open>The slots from \<open>fillIndex\<close> on that are still \<open>undefined\<close> in \<open>loadedZones\<close>.\<close>

definition freeSlots :: "Zones \<Rightarrow> nat \<Rightarrow> string list" where
  "freeSlots loadedZones fillIndex =
     filter (\<lambda>n. loadedZones n = None) (drop fillIndex FIXED_ZONE_NAMES)"

text \<open>
  \<open>loadInitialData\<close>. The argument is the outcome of \<open>api.get\<close>: \<open>None\<close> when the
  request fails, otherwise the response body. The \<open>catch\<close> only logs, so a failure
  leaves the state as it was.
\<close>

definition loadInitialData :: "jsvalue option \<Rightarrow> editor \<Rightarrow> editor" where
  "loadInitialData zonesRes s =
     (case zonesRes of
        None \<Rightarrow> s
      | Some data \<Rightarrow> s\<lparr> zones := normalizeZones data \<rparr>)"

subsection \<open>Interaction\<close>

text \<open>The click handler of a zone button.\<close>

definition selectZone :: "bool \<Rightarrow> string \<Rightarrow> editor \<Rightarrow> editor" where
  "selectZone canEditZones z s =
     (if \<not> canEditZones then s else s\<lparr> currentZone := Some z, tempPoints := [] \<rparr>)"

text \<open>
  \<open>handleCanvasClick\<close>. \<open>rect\<close> is \<open>canvasRef.current?.getBoundingClientRect()\<close>,
  \<open>None\<close> while the canvas is not mounted. \<open>!currentZone\<close> holds for \<open>null\<close> and for
  the empty string.
\<close>

definition handleCanvasClick ::
  "bool \<Rightarrow> DOMRect option \<Rightarrow> real \<Rightarrow> real \<Rightarrow> editor \<Rightarrow> editor" where
  "handleCanvasClick canEditZones rect clientX clientY s =
     (case currentZone s of
        None \<Rightarrow> s
      | Some cz \<Rightarrow>
          if \<not> canEditZones \<or> cz = [] \<or> length (tempPoints s) \<ge> 2 then s
          else (case rect of
                  None \<Rightarrow> s
                | Some r \<Rightarrow>
                    (let newPoints = tempPoints s @ [toCanonical r clientX clientY] in
                     if length newPoints = 2
                     then s\<lparr> tempPoints := newPoints,
                             zones := (zones s)(cz \<mapsto> Some (newPoints ! 0, newPoints ! 1)) \<rparr>
                     else s\<lparr> tempPoints := newPoints \<rparr>)))"

subsection \<open>Persistence bridge: save\<close>

text \<open>
  What an operation does besides changing the state: the body posted to
  \<open>/set_zones/{platform}\<close>, the \<open>zones\<close> field of a \<open>zones:updated\<close> event, an alert,
  the call of \<open>onClose\<close>.
\<close>

datatype effect = Post jsvalue | ZonesUpdated jsvalue | Alert string | Close

text \<open>
  \<open>if (zones[z]) data[z] = { p1: [zones[z][0].x, zones[z][0].y], p2: [...] }\<close>
\<close>

definition serializeSlot :: "Zones \<Rightarrow> string \<Rightarrow> (string \<times> jsvalue) list \<Rightarrow> (string \<times> jsvalue) list" where
  "serializeSlot zs z data =
     (case zs z of
        Some (Some (p1, p2)) \<Rightarrow>
          AList.update z (Obj [(''p1'', Arr [px p1, py p1]), (''p2'', Arr [px p2, py p2])]) data
      | _ \<Rightarrow> data)"

definition serializeZones :: "Zones \<Rightarrow> jsvalue" where
  "serializeZones zs = Obj (fold (serializeSlot zs) FIXED_ZONE_NAMES [])"

text \<open>
  The normalisation of the reload after a save or a clear-all: direct matches only, and
  every other fixed name is \<open>null\<close>.
\<close>

definition reloadSlot :: "jsvalue \<Rightarrow> string \<Rightarrow> Zones \<Rightarrow> Zones" where
  "reloadSlot data name reloaded =
     (if truthy data \<and> truthy (js_get data name)
      then reloaded(name \<mapsto> zoneOfArrays (js_get (js_get data name) ''p1'')
                                        (js_get (js_get data name) ''p2''))
      else reloaded(name \<mapsto> None))"

definition reloadZones :: "jsvalue \<Rightarrow> Zones" where
  "reloadZones data = fold (reloadSlot data) FIXED_ZONE_NAMES Map.empty"

text \<open>A \<open>Zones\<close> record over the fixed names as the value an event carries.\<close>

definition pointValue :: "Point \<Rightarrow> jsvalue" where
  "pointValue p = Obj [(''x'', px p), (''y'', py p)]"

definition zonesValue :: "Zones \<Rightarrow> jsvalue" where
  "zonesValue zs =
     Obj (map (\<lambda>n. (n, case zs n of
                          Some (Some (p1, p2)) \<Rightarrow> Arr [pointValue p1, pointValue p2]
                        | _ \<Rightarrow> Null))
              FIXED_ZONE_NAMES)"

text \<open>
  \<open>handleSave\<close>. \<open>postOk\<close> says whether the POST succeeds, \<open>zonesRes\<close> is the outcome
  of the GET that follows it. Either failure lands in the same \<open>catch\<close>.
\<close>

definition handleSave :: "bool \<Rightarrow> jsvalue option \<Rightarrow> editor \<Rightarrow> editor \<times> effect list" where
  "handleSave postOk zonesRes s =
     (let data = serializeZones (zones s) in
      if \<not> postOk then (s, [Post data, Alert ''Failed to save zones.''])
      else case zonesRes of
             None \<Rightarrow> (s, [Post data, Alert ''Failed to save zones.''])
           | Some d \<Rightarrow>
               (s\<lparr> zones := reloadZones d \<rparr>,
                [Post data, ZonesUpdated (zonesValue (reloadZones d)), Close]))"

text \<open>\<open>clearAll\<close>; \<open>confirmed\<close> is the answer to the \<open>confirm\<close> dialog.\<close>

definition clearAll :: "bool \<Rightarrow> bool \<Rightarrow> jsvalue option \<Rightarrow> editor \<Rightarrow> editor \<times> effect list" where
  "clearAll confirmed postOk zonesRes s =
     (if \<not> confirmed then (s, [])
      else let cleared = fold (\<lambda>n c. c(n \<mapsto> None)) FIXED_ZONE_NAMES Map.empty;
               s1 = s\<lparr> zones := cleared, tempPoints := [], currentZone := None \<rparr>
           in if \<not> postOk then (s1, [Post (Obj []), Alert ''Failed to clear zones on the server.''])
              else case zonesRes of
                     None \<Rightarrow> (s1, [Post (Obj []), Alert ''Failed to clear zones on the server.''])
                   | Some d \<Rightarrow>
                       (s1\<lparr> zones := reloadZones d \<rparr>,
                        [Post (Obj []), ZonesUpdated (zonesValue (reloadZones d))]))"

text \<open>
  The click handler of the \<open>Trash2\<close> icon of zone \<open>z\<close> (the per-zone clear). It stops
  the propagation of the click, so the handler of the enclosing zone button does not
  run.
\<close>

definition clearZone :: "bool \<Rightarrow> bool \<Rightarrow> bool \<Rightarrow> string \<Rightarrow> editor \<Rightarrow> editor \<times> effect list" where
  "clearZone canEditZones confirmed postOk z s =
     (if \<not> canEditZones then (s, [])
      else if \<not> confirmed then (s, [])
      else let copy = (zones s)(z \<mapsto> None);
               data = serializeZones copy
           in (s\<lparr> zones := copy \<rparr>,
               if postOk then [Post data, ZonesUpdated data] else [Post data]))"

subsection \<open>Sequences of operations\<close>

text \<open>
  What the operator and the network can do to an open editor. The zone buttons and their
  trash icons exist for the fixed names only; the clear-all and save buttons are rendered
  only with the permission. A handler reads the state of the last render, and React
  renders between two user events, so the operations apply one after the other; the
  state update that follows a network reply is taken together with the operation that
  sent the request.
\<close>

datatype event =
    SelectZone string
  | CanvasClick "DOMRect option" real real
  | ClearZone string bool bool
  | ClearAll bool bool "jsvalue option"
  | Save bool "jsvalue option"
  | Load "jsvalue option"

fun step :: "bool \<Rightarrow> event \<Rightarrow> editor \<Rightarrow> editor" where
  "step canEditZones (SelectZone z) s =
     (if z \<in> set FIXED_ZONE_NAMES then selectZone canEditZones z s else s)"
| "step canEditZones (CanvasClick rect clientX clientY) s =
     handleCanvasClick canEditZones rect clientX clientY s"
| "step canEditZones (ClearZone z confirmed postOk) s =
     (if z \<in> set FIXED_ZONE_NAMES then fst (clearZone canEditZones confirmed postOk z s) else s)"
| "step canEditZones (ClearAll confirmed postOk zonesRes) s =
     (if canEditZones then fst (clearAll confirmed postOk zonesRes s) else s)"
| "step canEditZones (Save postOk zonesRes) s =
     (if canEditZones then fst (handleSave postOk zonesRes s) else s)"
| "step canEditZones (Load zonesRes) s = loadInitialData zonesRes s"

definition run :: "bool \<Rightarrow> event list \<Rightarrow> editor \<Rightarrow> editor" where
  "run canEditZones evs s = fold (step canEditZones) evs s"

text \<open>
  The invariant of the editor's keys: the zone record has fixed names only, and so has
  the selection.
\<close>

definition keys_fixed :: "editor \<Rightarrow> bool" where
  "keys_fixed s =
     (dom (zones s) \<subseteq> set FIXED_ZONE_NAMES
      \<and> (case currentZone s of None \<Rightarrow> True | Some z \<Rightarrow> z \<in> set FIXED_ZONE_NAMES))"

section \<open>Dashboard reconciliation\<close>

subsection \<open>Number operations\<close>

text \<open>\<open>n > 0\<close> and \<open>n <= 0\<close>; both are false on \<open>NaN\<close>.\<close>

fun num_gt0 :: "jsnumber \<Rightarrow> bool" where
  "num_gt0 (Fin r) = (0 < r)"
| "num_gt0 PosInf = True"
| "num_gt0 n = False"

fun num_le0 :: "jsnumber \<Rightarrow> bool" where
  "num_le0 (Fin r) = (r \<le> 0)"
| "num_le0 NegInf = True"
| "num_le0 n = False"

text \<open>\<open>n >= c\<close> for a finite \<open>c\<close>.\<close>

fun num_ge :: "jsnumber \<Rightarrow> real \<Rightarrow> bool" where
  "num_ge (Fin r) c = (c \<le> r)"
| "num_ge PosInf c = True"
| "num_ge n c = False"

text \<open>
  \<open>a - b\<close>. On finite numbers the difference is exact; the doubles of the source give
  the same on integers up to \<open>2^53\<close>, the range of a count.
\<close>

fun js_sub :: "jsnumber \<Rightarrow> jsnumber \<Rightarrow> jsnumber" where
  "js_sub (Fin a) (Fin b) = Fin (a - b)"
| "js_sub NaN n = NaN"
| "js_sub n NaN = NaN"
| "js_sub PosInf PosInf = NaN"
| "js_sub NegInf NegInf = NaN"
| "js_sub PosInf n = PosInf"
| "js_sub NegInf n = NegInf"
| "js_sub (Fin a) PosInf = NegInf"
| "js_sub (Fin a) NegInf = PosInf"

fun js_divide :: "jsnumber \<Rightarrow> jsnumber \<Rightarrow> jsnumber" where
  "js_divide (Fin a) (Fin b) = js_div a b"
| "js_divide NaN n = NaN"
| "js_divide n NaN = NaN"
| "js_divide (Fin a) n = Fin 0"
| "js_divide PosInf (Fin b) = (if 0 \<le> b then PosInf else NegInf)"
| "js_divide NegInf (Fin b) = (if 0 \<le> b then NegInf else PosInf)"
| "js_divide PosInf PosInf = NaN"
| "js_divide PosInf NegInf = NaN"
| "js_divide NegInf PosInf = NaN"
| "js_divide NegInf NegInf = NaN"

text \<open>\<open>a === b\<close> on numbers: \<open>NaN\<close> equals nothing.\<close>

definition num_strict_eq :: "jsnumber \<Rightarrow> jsnumber \<Rightarrow> bool" where
  "num_strict_eq a b = (a \<noteq> NaN \<and> a = b)"

subsection \<open>KPI totals\<close>

text \<open>\<open>useState({ loaded: 0, unloaded: 0, balance: 0 })\<close> of \<open>KPICards\<close>.\<close>

record Stats =
  loaded :: jsnumber
  unloaded :: jsnumber
  balance :: jsnumber

text \<open>
  The \<open>setStats\<close> at the end of \<open>fetchStats\<close>: \<open>totals\<close> are the sums over the buckets
  of the chart response.
\<close>

definition kpiFetchMerge :: "jsnumber \<Rightarrow> jsnumber \<Rightarrow> Stats \<Rightarrow> Stats" where
  "kpiFetchMerge totals_loaded totals_unloaded prev =
     (let newStats = \<lparr> loaded = totals_loaded, unloaded = totals_unloaded,
                       balance = js_sub totals_loaded totals_unloaded \<rparr>;
          hasData = (num_gt0 totals_loaded \<or> num_gt0 totals_unloaded)
      in if \<not> hasData \<and> (num_gt0 (loaded prev) \<or> num_gt0 (unloaded prev)) then prev
         else newStats)"

text \<open>
  The \<open>setStats\<close> of the real-time effect, the same in its two branches (all platforms,
  one platform): \<open>newStats\<close> is the snapshot taken from the push message.
\<close>

definition kpiRealtimeMerge :: "Stats \<Rightarrow> Stats \<Rightarrow> Stats" where
  "kpiRealtimeMerge newStats prev =
     (let hasLive = (num_truthy (loaded newStats) \<or> num_truthy (unloaded newStats))
      in if \<not> hasLive \<and> (num_truthy (loaded prev) \<or> num_truthy (unloaded prev)) then prev
         else if num_strict_eq (loaded prev) (loaded newStats)
               \<and> num_strict_eq (unloaded prev) (unloaded newStats)
               \<and> num_strict_eq (balance prev) (balance newStats) then prev
         else newStats)"

subsection \<open>Platform grid\<close>

text \<open>
  \<open>Object.values(platformsPayload || {}).some((p) => p?.total_loaded || p?.total_unloaded)\<close>
\<close>

definition hasCounts :: "jsvalue \<Rightarrow> bool" where
  "hasCounts platformsPayload =
     list_ex (\<lambda>p. truthy (js_or (js_get p ''total_loaded'') (js_get p ''total_unloaded'')))
       (Object_values (js_or platformsPayload (Obj [])))"

text \<open>
  The effect on \<open>realtimeData\<close> of \<open>PlatformGridComponent\<close>; \<open>prev\<close> is the state
  \<open>platformStats\<close>.
\<close>

definition platformGridRealtimeMerge :: "jsvalue \<Rightarrow> jsvalue \<Rightarrow> jsvalue" where
  "platformGridRealtimeMerge realtimeData prev =
     (let platformsPayload = js_get realtimeData ''platforms'' in
      if \<not> truthy platformsPayload then prev
      else if \<not> hasCounts platformsPayload \<and> truthy prev \<and> length (Object_keys prev) > 0
           then prev
           else platformsPayload)"

text \<open>
  \<open>fetchAllStats\<close> of the same component: \<open>setPlatformStats(response.data.platforms || {})\<close>.
  \<open>None\<close> is a failed request; a body that is \<open>null\<close> or \<open>undefined\<close> makes the property
  read throw. Both land in the \<open>catch\<close>, which only logs.
\<close>

definition fetchAllStats :: "jsvalue option \<Rightarrow> jsvalue \<Rightarrow> jsvalue" where
  "fetchAllStats response prev =
     (case response of
        None \<Rightarrow> prev
      | Some Undefined \<Rightarrow> prev
      | Some Null \<Rightarrow> prev
      | Some data \<Rightarrow> js_or (js_get data ''platforms'') (Obj []))"

subsection \<open>Zone counts of the platform grid\<close>

definition ZONE_DISPLAY_THRESHOLD :: real where
  "ZONE_DISPLAY_THRESHOLD = 25 / 100"

definition shouldShowZoneCount :: "jsnumber \<Rightarrow> jsnumber \<Rightarrow> bool" where
  "shouldShowZoneCount zoneCount platformTotal =
     (if \<not> num_truthy zoneCount \<or> num_le0 zoneCount then False
      else if \<not> num_truthy platformTotal \<or> num_le0 platformTotal then True
      else num_ge (js_divide zoneCount platformTotal) ZONE_DISPLAY_THRESHOLD)"

text \<open>
  \<open>stats?.total_loaded !== undefined ? Number(stats.total_loaded) : 0\<close>: the argument is
  \<open>None\<close> when there are no stats for the platform or the field is \<open>undefined\<close>, and
  otherwise the number \<open>Number(...)\<close> makes of the field.
\<close>

definition numericTotal :: "jsnumber option \<Rightarrow> jsnumber" where
  "numericTotal v = (case v of None \<Rightarrow> Fin 0 | Some n \<Rightarrow> n)"

text \<open>\<open>{showLoaded ? zoneLoaded : 0}\<close>, and the same for the unloaded count.\<close>

definition displayedZoneCount :: "jsnumber \<Rightarrow> jsnumber \<Rightarrow> jsnumber" where
  "displayedZoneCount zoneCount platformTotal =
     (if shouldShowZoneCount zoneCount platformTotal then zoneCount else Fin 0)"

section \<open>Example data\<close>

text \<open>A point with finite numeric coordinates.\<close>

definition Pt :: "real \<Rightarrow> real \<Rightarrow> Point" where
  "Pt a b = \<lparr> px = Number (Fin a), py = Number (Fin b) \<rparr>"

text \<open>The backend form \<open>{p1: [a, b], p2: [c, d]}\<close> of a zone.\<close>

definition line_value :: "real \<Rightarrow> real \<Rightarrow> real \<Rightarrow> real \<Rightarrow> jsvalue" where
  "line_value a b c d =
     Obj [(''p1'', Arr [Number (Fin a), Number (Fin b)]),
          (''p2'', Arr [Number (Fin c), Number (Fin d)])]"

text \<open>The payload \<open>{"zone1": {p1: [1,1], p2: [2,2]}}\<close> of the spec's fallback scenario.\<close>

definition zone1_payload :: jsvalue where
  "zone1_payload = Obj [(''zone1'', line_value 1 1 2 2)]"

text \<open>A payload with one fixed name among three other keys.\<close>

definition mixed_payload :: jsvalue where
  "mixed_payload =
     Obj [(''north'', line_value 1 1 2 2), (''B'', line_value 3 3 4 4),
          (''south'', line_value 5 5 6 6), (''extra'', line_value 7 7 8 8)]"

text \<open>A viewer without the \<open>cameras\<close> page.\<close>

definition viewer_user :: jsvalue where
  "viewer_user =
     Obj [(''role'', Str ''viewer''),
          (''page_permissions'', Arr [Str ''dashboard'', Str ''reports''])]"

text \<open>Zone A selected, nothing drawn yet.\<close>

definition drawing_state :: editor where
  "drawing_state = \<lparr> zones = Map.empty, currentZone = Some ''A'', tempPoints = [] \<rparr>"

text \<open>Zone A selected and just committed: its two points are still held as the preview.\<close>

definition preview_state :: editor where
  "preview_state =
     \<lparr> zones = [''A'' \<mapsto> Some (Pt 10 10, Pt 500 500)], currentZone = Some ''A'',
       tempPoints = [Pt 10 10, Pt 500 500] \<rparr>"

text \<open>The zone set of the spec's clear scenario.\<close>

definition clear_scenario_state :: editor where
  "clear_scenario_state =
     \<lparr> zones = [''A'' \<mapsto> Some (Pt 0 0, Pt 1 1), ''B'' \<mapsto> None, ''C'' \<mapsto> None],
       currentZone = None, tempPoints = [] \<rparr>"

text \<open>Platform statistics with counts, as \<open>/api/v1/today-summary\<close> delivers them.\<close>

definition held_stats :: jsvalue where
  "held_stats =
     Obj [(''platform1'',
           Obj [(''total_loaded'', Number (Fin 4)), (''total_unloaded'', Number (Fin 1))])]"

definition held_kpi :: Stats where
  "held_kpi = \<lparr> loaded = Fin 5, unloaded = Fin 2, balance = Fin 3 \<rparr>"

section \<open>Interaction state machine\<close>

lemma toCanonical_canvas_10:
  "toCanonical canvas_rect 10 10 = Pt 10 10"
  by (simp add: toCanonical_def canvas_rect_def js_div_def Math_round_def Pt_def)

lemma toCanonical_canvas_500:
  "toCanonical canvas_rect 500 500 = Pt 500 500"
  by (simp add: toCanonical_def canvas_rect_def js_div_def Math_round_def Pt_def)

text \<open>
  C1. Whatever the state before (the idle state with no transient points included),
  an operator with the permission who selects zone A and clicks at two positions that
  convert to \<open>(10,10)\<close> and \<open>(500,500)\<close> has \<open>zones["A"] = [(10,10),(500,500)]\<close>, the
  other zones as before, and the two points still held as transient points. A further
  click is ignored, as is every click while two transient points are held or no zone
  is selected.
\<close>

theorem two_point_commit:
  assumes "toCanonical r1 x1 y1 = Pt 10 10"
    and "toCanonical r2 x2 y2 = Pt 500 500"
    and "s' = handleCanvasClick True (Some r2) x2 y2
                (handleCanvasClick True (Some r1) x1 y1 (selectZone True ''A'' s))"
  shows "zones s' ''A'' = Some (Some (Pt 10 10, Pt 500 500))
       \<and> tempPoints s' = [Pt 10 10, Pt 500 500]
       \<and> (\<forall>n. n \<noteq> ''A'' \<longrightarrow> zones s' n = zones s n)
       \<and> handleCanvasClick True rect3 x3 y3 s' = s'
       \<and> (\<forall>canEdit rect cx cy t.
             length (tempPoints t) \<ge> 2 \<or> currentZone t = None
               \<longrightarrow> handleCanvasClick canEdit rect cx cy t = t)"
  using assms
  by (auto simp: handleCanvasClick_def selectZone_def Let_def split: option.splits)

theorem two_point_commit_witness:
  "zones (handleCanvasClick True (Some canvas_rect) 500 500
            (handleCanvasClick True (Some canvas_rect) 10 10 (selectZone True ''A'' initial_editor)))
     ''A'' = Some (Some (Pt 10 10, Pt 500 500))
   \<and> tempPoints (handleCanvasClick True (Some canvas_rect) 500 500
            (handleCanvasClick True (Some canvas_rect) 10 10 (selectZone True ''A'' initial_editor)))
     = [Pt 10 10, Pt 500 500]"
  using two_point_commit [OF toCanonical_canvas_10 toCanonical_canvas_500 refl, of initial_editor]
  by simp

lemma handleCanvasClick_tempPoints:
  "tempPoints (handleCanvasClick c rect cx cy s) = tempPoints s
   \<or> (length (tempPoints s) < 2
      \<and> (\<exists>p. tempPoints (handleCanvasClick c rect cx cy s) = tempPoints s @ [p]))"
  by (auto simp: handleCanvasClick_def Let_def split: option.splits)

lemma step_tempPoints:
  assumes "length (tempPoints s) \<le> 2"
  shows "length (tempPoints (step c ev s)) \<le> 2"
proof (cases ev)
  case (SelectZone z)
  then show ?thesis using assms by (simp add: selectZone_def)
next
  case (CanvasClick rect cx cy)
  then show ?thesis
    using assms handleCanvasClick_tempPoints [of c rect cx cy s] by auto
next
  case (ClearZone z confirmed postOk)
  then show ?thesis using assms by (simp add: clearZone_def Let_def)
next
  case (ClearAll confirmed postOk zonesRes)
  then show ?thesis using assms by (simp add: clearAll_def Let_def split: option.splits)
next
  case (Save postOk zonesRes)
  then show ?thesis using assms by (simp add: handleSave_def Let_def split: option.splits)
next
  case (Load zonesRes)
  then show ?thesis using assms by (simp add: loadInitialData_def split: option.splits)
qed

lemma run_tempPoints:
  "length (tempPoints s) \<le> 2 \<Longrightarrow> length (tempPoints (run c evs s)) \<le> 2"
  unfolding run_def
  by (induction evs arbitrary: s) (simp_all add: step_tempPoints)

text \<open>
  C8. In every state that a sequence of editor operations reaches from the initial
  state, at most two transient points are held. A click changes the list only by
  appending one point to a list of fewer than two; selecting a zone (with the
  permission) and a confirmed clear-all empty the list.
\<close>

theorem tempPoints_at_most_two:
  "length (tempPoints (run canEditZones evs initial_editor)) \<le> 2
   \<and> (\<forall>s rect cx cy.
         tempPoints (handleCanvasClick canEditZones rect cx cy s) \<noteq> tempPoints s
           \<longrightarrow> length (tempPoints s) < 2
               \<and> (\<exists>p. tempPoints (handleCanvasClick canEditZones rect cx cy s) = tempPoints s @ [p]))
   \<and> (\<forall>s z. tempPoints (selectZone True z s) = [])
   \<and> (\<forall>s postOk zonesRes. tempPoints (fst (clearAll True postOk zonesRes s)) = [])"
proof -
  have "length (tempPoints (run canEditZones evs initial_editor)) \<le> 2"
    by (rule run_tempPoints) (simp add: initial_editor_def)
  moreover have "\<forall>s rect cx cy.
         tempPoints (handleCanvasClick canEditZones rect cx cy s) \<noteq> tempPoints s
           \<longrightarrow> length (tempPoints s) < 2
               \<and> (\<exists>p. tempPoints (handleCanvasClick canEditZones rect cx cy s) = tempPoints s @ [p])"
    using handleCanvasClick_tempPoints by blast
  moreover have "\<forall>s z. tempPoints (selectZone True z s) = []"
    by (simp add: selectZone_def)
  moreover have "\<forall>s postOk zonesRes. tempPoints (fst (clearAll True postOk zonesRes s)) = []"
    by (simp add: clearAll_def Let_def split: option.splits)
  ultimately show ?thesis by blast
qed

theorem tempPoints_at_most_two_witness:
  "length (tempPoints (run True
      [SelectZone ''A'', CanvasClick (Some canvas_rect) 10 10, CanvasClick (Some canvas_rect) 500 500,
       CanvasClick (Some canvas_rect) 7 7, ClearZone ''A'' True True, CanvasClick (Some canvas_rect) 8 8]
      initial_editor)) = 2"
  using tempPoints_at_most_two [of True
      "[SelectZone ''A'', CanvasClick (Some canvas_rect) 10 10, CanvasClick (Some canvas_rect) 500 500,
       CanvasClick (Some canvas_rect) 7 7, ClearZone ''A'' True True, CanvasClick (Some canvas_rect) 8 8]"]
  by (simp add: run_def initial_editor_def selectZone_def handleCanvasClick_def clearZone_def
        FIXED_ZONE_NAMES_def Let_def)

text \<open>
  C9. Without the \<open>cameras\<close> page permission (\<open>canEditZones\<close> is false) a canvas click
  changes nothing: the zone set, the transient points and the selection stay as they
  are, whatever the state and the position of the click.
\<close>

theorem viewer_click_noop:
  assumes "\<not> hasPagePermission user ''cameras''"
  shows "handleCanvasClick (hasPagePermission user ''cameras'') rect clientX clientY s = s"
  using assms by (simp add: handleCanvasClick_def split: option.splits)

lemma viewer_denied: "\<not> hasPagePermission viewer_user ''cameras''"
  by (simp add: hasPagePermission_def normalizeUserPermissions_def viewer_user_def js_or_def
        AVAILABLE_PAGES_def Let_def)

theorem viewer_click_noop_witness:
  "\<not> hasPagePermission viewer_user ''cameras''
   \<and> handleCanvasClick (hasPagePermission viewer_user ''cameras'') (Some canvas_rect) 10 10 drawing_state
       = drawing_state
   \<and> handleCanvasClick True (Some canvas_rect) 10 10 drawing_state \<noteq> drawing_state"
  using viewer_click_noop [OF viewer_denied, of "Some canvas_rect" 10 10 drawing_state] viewer_denied
  by (simp add: handleCanvasClick_def drawing_state_def Let_def)

section \<open>Persistence bridge\<close>

subsection \<open>The two passes of the load\<close>

lemma skipAssigned_unassigned:
  "skipAssigned l i < length FIXED_ZONE_NAMES \<Longrightarrow> l (FIXED_ZONE_NAMES ! skipAssigned l i) = None"
proof (induction l i rule: skipAssigned.induct)
  case (1 l i)
  show ?case
  proof (cases "i < length FIXED_ZONE_NAMES \<and> l (FIXED_ZONE_NAMES ! i) \<noteq> None")
    case True
    then have eq: "skipAssigned l i = skipAssigned l (i + 1)"
      by (subst skipAssigned.simps) simp
    from "1.IH" [OF True] "1.prems" show ?thesis by (simp add: eq)
  next
    case False
    then have eq: "skipAssigned l i = i"
      by (subst skipAssigned.simps) auto
    from False "1.prems" show ?thesis by (simp add: eq)
  qed
qed

lemma skipAssigned_free:
  "i < length FIXED_ZONE_NAMES \<Longrightarrow> l (FIXED_ZONE_NAMES ! i) = None \<Longrightarrow> skipAssigned l i = i"
  by (subst skipAssigned.simps) simp

lemma skipAssigned_end:
  "i \<ge> length FIXED_ZONE_NAMES \<Longrightarrow> skipAssigned l i = i"
  by (subst skipAssigned.simps) simp

lemma distinct_fixed: "distinct FIXED_ZONE_NAMES"
  by (simp add: FIXED_ZONE_NAMES_def)

text \<open>The second pass never overwrites a slot that is assigned.\<close>

lemma fillSlots_keeps:
  "l n \<noteq> None \<Longrightarrow> fillSlots d ks i l n = l n"
proof (induction ks arbitrary: i l)
  case Nil
  then show ?case by simp
next
  case (Cons k ks)
  show ?case
  proof (cases "k \<in> set FIXED_ZONE_NAMES")
    case True
    then show ?thesis using Cons by simp
  next
    case False
    let ?j = "skipAssigned l i"
    show ?thesis
    proof (cases "?j \<ge> length FIXED_ZONE_NAMES")
      case True
      with False show ?thesis by (simp add: Let_def)
    next
      case nb: False
      then have free: "l (FIXED_ZONE_NAMES ! ?j) = None"
        using skipAssigned_unassigned [of l i] by simp
      with Cons.prems have ne: "FIXED_ZONE_NAMES ! ?j \<noteq> n" by auto
      let ?l' = "l(FIXED_ZONE_NAMES ! ?j \<mapsto> decodeEntry (js_get d k))"
      have "?l' n \<noteq> None" using Cons.prems ne by simp
      from Cons.IH [of ?l' "?j + 1", OF this] have "fillSlots d ks (?j + 1) ?l' n = ?l' n" .
      then show ?thesis using False nb ne by (simp add: Let_def)
    qed
  qed
qed

lemma ensureSlots_keeps:
  "l n \<noteq> None \<Longrightarrow> fold ensureSlot ns l n = l n"
  by (induction ns arbitrary: l) (auto simp: ensureSlot_def)

lemma ensureSlots_fills:
  "n \<in> set ns \<Longrightarrow> l n = None \<Longrightarrow> fold ensureSlot ns l n = Some None"
proof (induction ns arbitrary: l)
  case Nil
  then show ?case by simp
next
  case (Cons a ns)
  show ?case
  proof (cases "a = n")
    case True
    then have "ensureSlot a l n = Some None" using Cons.prems(2) by (simp add: ensureSlot_def)
    then have "fold ensureSlot ns (ensureSlot a l) n = Some None"
      using ensureSlots_keeps [of "ensureSlot a l" n ns] by simp
    then show ?thesis by simp
  next
    case False
    then have "ensureSlot a l n = None" using Cons.prems(2) by (simp add: ensureSlot_def)
    moreover have "n \<in> set ns" using Cons.prems(1) False by simp
    ultimately show ?thesis using Cons.IH [of "ensureSlot a l"] by simp
  qed
qed

lemma directMatch_fixed:
  assumes "n \<in> set FIXED_ZONE_NAMES" and "truthy d" and "truthy (js_get d n)"
  shows "fold (directMatch d) FIXED_ZONE_NAMES Map.empty n
           = Some (zoneOfArrays (js_get (js_get d n) ''p1'') (js_get (js_get d n) ''p2''))"
  using assms by (auto simp: FIXED_ZONE_NAMES_def directMatch_def)

text \<open>First pass: a fixed name with a truthy value in the payload keeps that value.\<close>

lemma normalizeZones_direct:
  assumes "n \<in> set FIXED_ZONE_NAMES" and "truthy d" and "truthy (js_get d n)"
  shows "normalizeZones d n
           = Some (zoneOfArrays (js_get (js_get d n) ''p1'') (js_get (js_get d n) ''p2''))"
proof -
  let ?direct = "fold (directMatch d) FIXED_ZONE_NAMES Map.empty"
  let ?keys = "Object_keys (js_or d (Obj []))"
  have a: "?direct n \<noteq> None" using directMatch_fixed [OF assms] by simp
  have b: "fillSlots d ?keys 0 ?direct n = ?direct n"
    using fillSlots_keeps [of ?direct n d ?keys 0, OF a] .
  then have "fold ensureSlot FIXED_ZONE_NAMES (fillSlots d ?keys 0 ?direct) n = ?direct n"
    using ensureSlots_keeps [of "fillSlots d ?keys 0 ?direct" n FIXED_ZONE_NAMES] a by simp
  then show ?thesis using directMatch_fixed [OF assms] by (simp add: normalizeZones_def Let_def)
qed

text \<open>
  Second pass on keys none of which is a fixed name, started at slot \<open>j\<close> with every
  slot from \<open>j\<close> on free: slot \<open>i\<close> gets the entry of key number \<open>i - j\<close>.
\<close>

lemma fillSlots_fallback:
  assumes "\<forall>k \<in> set ks. k \<notin> set FIXED_ZONE_NAMES"
    and "\<forall>m. j \<le> m \<and> m < length FIXED_ZONE_NAMES \<longrightarrow> l (FIXED_ZONE_NAMES ! m) = None"
    and "i < length FIXED_ZONE_NAMES"
  shows "fillSlots d ks j l (FIXED_ZONE_NAMES ! i)
           = (if i < j then l (FIXED_ZONE_NAMES ! i)
              else if i - j < length ks then Some (decodeEntry (js_get d (ks ! (i - j))))
              else None)"
  using assms
proof (induction ks arbitrary: j l)
  case Nil
  then show ?case by auto
next
  case (Cons k ks)
  have knf: "k \<notin> set FIXED_ZONE_NAMES" using Cons.prems(1) by simp
  show ?case
  proof (cases "j < length FIXED_ZONE_NAMES")
    case False
    then have "skipAssigned l j = j" by (simp add: skipAssigned_end)
    with False knf Cons.prems(3) show ?thesis by (simp add: Let_def)
  next
    case True
    then have sk: "skipAssigned l j = j" using Cons.prems(2) by (simp add: skipAssigned_free)
    let ?l' = "l(FIXED_ZONE_NAMES ! j \<mapsto> decodeEntry (js_get d k))"
    have step: "fillSlots d (k # ks) j l = fillSlots d ks (j + 1) ?l'"
      using knf sk True by (simp add: Let_def)
    have p1: "\<forall>k \<in> set ks. k \<notin> set FIXED_ZONE_NAMES" using Cons.prems(1) by simp
    have p2: "\<forall>m. j + 1 \<le> m \<and> m < length FIXED_ZONE_NAMES \<longrightarrow> ?l' (FIXED_ZONE_NAMES ! m) = None"
      using Cons.prems(2) True distinct_fixed by (auto simp: nth_eq_iff_index_eq)
    have IH: "fillSlots d ks (j + 1) ?l' (FIXED_ZONE_NAMES ! i)
           = (if i < j + 1 then ?l' (FIXED_ZONE_NAMES ! i)
              else if i - (j + 1) < length ks then Some (decodeEntry (js_get d (ks ! (i - (j + 1)))))
              else None)"
      by (rule Cons.IH [OF p1 p2 Cons.prems(3)])
    show ?thesis
    proof (cases "i < j")
      case True
      then have "FIXED_ZONE_NAMES ! i \<noteq> FIXED_ZONE_NAMES ! j"
        using \<open>j < length FIXED_ZONE_NAMES\<close> distinct_fixed by (simp add: nth_eq_iff_index_eq)
      with True show ?thesis unfolding step IH by simp
    next
      case False
      show ?thesis
      proof (cases "i = j")
        case True
        then show ?thesis unfolding step IH by simp
      next
        case neq: False
        with False have gt: "j < i" by simp
        then have "i - j = Suc (i - (j + 1))" by simp
        with gt show ?thesis unfolding step IH by simp
      qed
    qed
  qed
qed

text \<open>
  A payload object without any fixed name: its entries fill the slots A, B, C in
  enumeration order, and a slot beyond the last entry is \<open>null\<close>.
\<close>

lemma normalizeZones_fallback:
  assumes "\<forall>k \<in> set (map fst kvs). k \<notin> set FIXED_ZONE_NAMES"
    and "i < length FIXED_ZONE_NAMES"
  shows "normalizeZones (Obj kvs) (FIXED_ZONE_NAMES ! i)
           = Some (if i < length kvs then decodeEntry (js_get (Obj kvs) (fst (kvs ! i))) else None)"
proof -
  have nokey: "\<And>n. n \<in> set FIXED_ZONE_NAMES \<Longrightarrow> map_of kvs n = None"
    using assms(1) by (auto simp: map_of_eq_None_iff)
  have direct: "fold (directMatch (Obj kvs)) FIXED_ZONE_NAMES Map.empty = Map.empty"
    using nokey by (simp add: FIXED_ZONE_NAMES_def directMatch_def)
  let ?filled = "fillSlots (Obj kvs) (map fst kvs) 0 Map.empty"
  have f: "?filled (FIXED_ZONE_NAMES ! i)
             = (if i < length kvs then Some (decodeEntry (js_get (Obj kvs) (fst (kvs ! i)))) else None)"
    using fillSlots_fallback [of "map fst kvs" 0 Map.empty i "Obj kvs"] assms by simp
  have mem: "FIXED_ZONE_NAMES ! i \<in> set FIXED_ZONE_NAMES" using assms(2) by simp
  have "fold ensureSlot FIXED_ZONE_NAMES ?filled (FIXED_ZONE_NAMES ! i)
          = Some (if i < length kvs then decodeEntry (js_get (Obj kvs) (fst (kvs ! i))) else None)"
  proof (cases "i < length kvs")
    case True
    with f have "?filled (FIXED_ZONE_NAMES ! i) \<noteq> None" by simp
    from ensureSlots_keeps [of ?filled "FIXED_ZONE_NAMES ! i" FIXED_ZONE_NAMES, OF this] f True
    show ?thesis by simp
  next
    case False
    with f have none: "?filled (FIXED_ZONE_NAMES ! i) = None" by simp
    from ensureSlots_fills [of "FIXED_ZONE_NAMES ! i" FIXED_ZONE_NAMES ?filled, OF mem none] False
    show ?thesis by simp
  qed
  then show ?thesis by (simp add: normalizeZones_def js_or_def direct Let_def)
qed

text \<open>
  The general second pass. Started at slot \<open>j\<close>, it gives the free slots from \<open>j\<close> on, in
  order, to the keys that are not fixed names, in order, and leaves every other name as
  it is.
\<close>

lemma freeSlots_step:
  assumes "j < length FIXED_ZONE_NAMES"
  shows "freeSlots l j = (if l (FIXED_ZONE_NAMES ! j) = None
                          then FIXED_ZONE_NAMES ! j # freeSlots l (j + 1)
                          else freeSlots l (j + 1))"
proof -
  have "drop j FIXED_ZONE_NAMES = FIXED_ZONE_NAMES ! j # drop (Suc j) FIXED_ZONE_NAMES"
    using assms by (simp add: Cons_nth_drop_Suc)
  then show ?thesis by (simp add: freeSlots_def)
qed

lemma skipAssigned_freeSlots:
  "(skipAssigned l j \<ge> length FIXED_ZONE_NAMES \<longrightarrow> freeSlots l j = [])
   \<and> (skipAssigned l j < length FIXED_ZONE_NAMES
        \<longrightarrow> freeSlots l j = FIXED_ZONE_NAMES ! skipAssigned l j # freeSlots l (skipAssigned l j + 1))"
proof (induction l j rule: skipAssigned.induct)
  case (1 l j)
  show ?case
  proof (cases "j < length FIXED_ZONE_NAMES \<and> l (FIXED_ZONE_NAMES ! j) \<noteq> None")
    case True
    then have eq: "skipAssigned l j = skipAssigned l (j + 1)"
      by (subst skipAssigned.simps) simp
    have fs: "freeSlots l j = freeSlots l (j + 1)"
      using True freeSlots_step [of j l] by simp
    from "1.IH" [OF True] show ?thesis unfolding eq fs .
  next
    case False
    then have eq: "skipAssigned l j = j"
      by (subst skipAssigned.simps) auto
    show ?thesis
    proof (cases "j < length FIXED_ZONE_NAMES")
      case True
      with False have "l (FIXED_ZONE_NAMES ! j) = None" by simp
      with True show ?thesis unfolding eq using freeSlots_step [of j l] by simp
    next
      case nlt: False
      then show ?thesis unfolding eq by (simp add: freeSlots_def)
    qed
  qed
qed

lemma nth_notin_drop:
  assumes "distinct xs" and "i < length xs"
  shows "xs ! i \<notin> set (drop (Suc i) xs)"
proof
  assume "xs ! i \<in> set (drop (Suc i) xs)"
  then obtain k where k: "k < length (drop (Suc i) xs)" "drop (Suc i) xs ! k = xs ! i"
    by (auto simp: in_set_conv_nth)
  then have "xs ! (Suc i + k) = xs ! i" and "Suc i + k < length xs" by auto
  with assms show False by (auto simp: nth_eq_iff_index_eq)
qed

lemma freeSlots_upd:
  assumes "i < length FIXED_ZONE_NAMES"
  shows "freeSlots (l(FIXED_ZONE_NAMES ! i \<mapsto> v)) (i + 1) = freeSlots l (i + 1)"
proof -
  have "FIXED_ZONE_NAMES ! i \<notin> set (drop (Suc i) FIXED_ZONE_NAMES)"
    using nth_notin_drop [OF distinct_fixed assms] .
  then show ?thesis
    unfolding freeSlots_def by (auto intro!: filter_cong)
qed

lemma fillSlots_general:
  "(\<forall>i < length (freeSlots l j).
       fillSlots d ks j l (freeSlots l j ! i)
         = (if i < length (filter (\<lambda>k. k \<notin> set FIXED_ZONE_NAMES) ks)
            then Some (decodeEntry (js_get d (filter (\<lambda>k. k \<notin> set FIXED_ZONE_NAMES) ks ! i)))
            else None))
   \<and> (\<forall>n. n \<notin> set (freeSlots l j) \<longrightarrow> fillSlots d ks j l n = l n)"
proof (induction ks arbitrary: j l)
  case Nil
  have "\<forall>i < length (freeSlots l j). l (freeSlots l j ! i) = None"
  proof (intro allI impI)
    fix i assume "i < length (freeSlots l j)"
    then have "freeSlots l j ! i \<in> set (freeSlots l j)" by simp
    then show "l (freeSlots l j ! i) = None" by (simp add: freeSlots_def)
  qed
  then show ?case by simp
next
  case (Cons k ks)
  let ?um = "filter (\<lambda>k. k \<notin> set FIXED_ZONE_NAMES)"
  show ?case
  proof (cases "k \<in> set FIXED_ZONE_NAMES")
    case True
    then show ?thesis using Cons [of l j] by simp
  next
    case knf: False
    let ?i0 = "skipAssigned l j"
    show ?thesis
    proof (cases "?i0 \<ge> length FIXED_ZONE_NAMES")
      case True
      then have "freeSlots l j = []" using skipAssigned_freeSlots [of l j] by simp
      moreover have "fillSlots d (k # ks) j l = l" using knf True by (simp add: Let_def)
      ultimately show ?thesis by simp
    next
      case False
      then have lt: "?i0 < length FIXED_ZONE_NAMES" by simp
      let ?v = "decodeEntry (js_get d k)"
      let ?l' = "l(FIXED_ZONE_NAMES ! ?i0 \<mapsto> ?v)"
      let ?fr' = "freeSlots ?l' (?i0 + 1)"
      have fr: "freeSlots l j = FIXED_ZONE_NAMES ! ?i0 # ?fr'"
        using skipAssigned_freeSlots [of l j] lt freeSlots_upd [OF lt, of l ?v] by simp
      have step: "fillSlots d (k # ks) j l = fillSlots d ks (?i0 + 1) ?l'"
        using knf lt by (simp add: Let_def)
      have um: "?um (k # ks) = k # ?um ks" using knf by simp
      have IH1: "\<forall>i < length ?fr'. fillSlots d ks (?i0 + 1) ?l' (?fr' ! i)
             = (if i < length (?um ks) then Some (decodeEntry (js_get d (?um ks ! i))) else None)"
        using Cons [of ?l' "?i0 + 1"] by blast
      have IH2: "\<forall>n. n \<notin> set ?fr' \<longrightarrow> fillSlots d ks (?i0 + 1) ?l' n = ?l' n"
        using Cons [of ?l' "?i0 + 1"] by blast
      have notin: "FIXED_ZONE_NAMES ! ?i0 \<notin> set ?fr'"
        by (simp add: freeSlots_def)
      have "fillSlots d ks (?i0 + 1) ?l' (FIXED_ZONE_NAMES ! ?i0) = ?l' (FIXED_ZONE_NAMES ! ?i0)"
        using IH2 notin by blast
      then have head: "fillSlots d ks (?i0 + 1) ?l' (FIXED_ZONE_NAMES ! ?i0) = Some ?v"
        by simp
      have part1: "\<forall>i < length (freeSlots l j).
         fillSlots d (k # ks) j l (freeSlots l j ! i)
           = (if i < length (?um (k # ks))
              then Some (decodeEntry (js_get d (?um (k # ks) ! i)))
              else None)"
      proof (intro allI impI)
        fix i assume i: "i < length (freeSlots l j)"
        show "fillSlots d (k # ks) j l (freeSlots l j ! i)
           = (if i < length (?um (k # ks))
              then Some (decodeEntry (js_get d (?um (k # ks) ! i)))
              else None)"
        proof (cases i)
          case 0
          then show ?thesis unfolding step fr um using head by simp
        next
          case (Suc i')
          with i fr have "i' < length ?fr'" by simp
          with IH1 have "fillSlots d ks (?i0 + 1) ?l' (?fr' ! i')
             = (if i' < length (?um ks) then Some (decodeEntry (js_get d (?um ks ! i'))) else None)"
            by blast
          then show ?thesis unfolding step fr um Suc by simp
        qed
      qed
      have part2: "\<forall>n. n \<notin> set (freeSlots l j) \<longrightarrow> fillSlots d (k # ks) j l n = l n"
      proof (intro allI impI)
        fix n assume "n \<notin> set (freeSlots l j)"
        then have a: "n \<noteq> FIXED_ZONE_NAMES ! ?i0" and b: "n \<notin> set ?fr'" unfolding fr by auto
        from IH2 b have "fillSlots d ks (?i0 + 1) ?l' n = ?l' n" by blast
        with a show "fillSlots d (k # ks) j l n = l n" unfolding step by simp
      qed
      from part1 part2 show ?thesis by blast
    qed
  qed
qed

lemma directMatch_char:
  "fold (directMatch d) FIXED_ZONE_NAMES Map.empty n
     = (if n \<in> set FIXED_ZONE_NAMES \<and> truthy d \<and> truthy (js_get d n)
        then Some (zoneOfArrays (js_get (js_get d n) ''p1'') (js_get (js_get d n) ''p2''))
        else None)"
  by (auto simp: FIXED_ZONE_NAMES_def directMatch_def)

lemma freeSlots_direct:
  "freeSlots (fold (directMatch d) FIXED_ZONE_NAMES Map.empty) 0 = unassignedSlots d"
  unfolding freeSlots_def unassignedSlots_def
  by (auto intro!: filter_cong simp: directMatch_char)

text \<open>
  Both passes together: the \<open>i\<close>-th slot left unassigned by the direct matches gets the
  \<open>i\<close>-th unmatched key, and \<open>null\<close> when the unmatched keys have run out.
\<close>

lemma normalizeZones_fill:
  assumes "i < length (unassignedSlots d)"
  shows "normalizeZones d (unassignedSlots d ! i)
           = Some (if i < length (unmatchedKeys d)
                   then decodeEntry (js_get d (unmatchedKeys d ! i))
                   else None)"
proof -
  let ?direct = "fold (directMatch d) FIXED_ZONE_NAMES Map.empty"
  let ?keys = "Object_keys (js_or d (Obj []))"
  let ?filled = "fillSlots d ?keys 0 ?direct"
  let ?n = "unassignedSlots d ! i"
  have mem: "?n \<in> set FIXED_ZONE_NAMES"
    using assms nth_mem [of i "unassignedSlots d"] by (auto simp: unassignedSlots_def)
  have f: "?filled ?n = (if i < length (unmatchedKeys d)
                         then Some (decodeEntry (js_get d (unmatchedKeys d ! i)))
                         else None)"
    using fillSlots_general [of ?direct 0 d ?keys] assms
    unfolding freeSlots_direct unmatchedKeys_def by blast
  have "fold ensureSlot FIXED_ZONE_NAMES ?filled ?n
          = Some (if i < length (unmatchedKeys d)
                   then decodeEntry (js_get d (unmatchedKeys d ! i))
                   else None)"
  proof (cases "i < length (unmatchedKeys d)")
    case True
    with f have "?filled ?n \<noteq> None" by simp
    from ensureSlots_keeps [of ?filled ?n FIXED_ZONE_NAMES, OF this] f True
    show ?thesis by simp
  next
    case False
    with f have none: "?filled ?n = None" by simp
    from ensureSlots_fills [of ?n FIXED_ZONE_NAMES ?filled, OF mem none] False
    show ?thesis by simp
  qed
  then show ?thesis by (simp add: normalizeZones_def Let_def)
qed

lemma zone1_normalizes:
  "normalizeZones zone1_payload = [''A'' \<mapsto> Some (Pt 1 1, Pt 2 2), ''B'' \<mapsto> None, ''C'' \<mapsto> None]"
  by (simp add: zone1_payload_def line_value_def normalizeZones_def js_or_def FIXED_ZONE_NAMES_def
        directMatch_def skipAssigned.simps ensureSlot_def zoneOfArrays_def decodeEntry_def
        Pt_def Let_def)

lemma mixed_normalizes:
  "normalizeZones mixed_payload
     = [''B'' \<mapsto> Some (Pt 3 3, Pt 4 4), ''A'' \<mapsto> Some (Pt 1 1, Pt 2 2),
        ''C'' \<mapsto> Some (Pt 5 5, Pt 6 6)]"
  by (simp add: mixed_payload_def line_value_def normalizeZones_def js_or_def FIXED_ZONE_NAMES_def
        directMatch_def skipAssigned.simps ensureSlot_def zoneOfArrays_def decodeEntry_def
        Pt_def Let_def)

lemma mixed_lists:
  "unassignedSlots mixed_payload = [''A'', ''C'']
   \<and> unmatchedKeys mixed_payload = [''north'', ''south'', ''extra'']"
  by (simp add: unassignedSlots_def unmatchedKeys_def mixed_payload_def line_value_def
        FIXED_ZONE_NAMES_def js_or_def)

lemma mixed_north:
  "decodeEntry (js_get mixed_payload ''north'') = Some (Pt 1 1, Pt 2 2)"
  by (simp add: mixed_payload_def line_value_def decodeEntry_def zoneOfArrays_def Pt_def)

text \<open>
  C3. The load normalises in two passes. The payload
  \<open>{"zone1": {p1: [1,1], p2: [2,2]}}\<close>, which has no fixed name, becomes
  \<open>{A: [(1,1),(2,2)], B: null, C: null}\<close> (\<open>null\<close> is the source's value for the
  spec's undefined zone). In general, for any payload: a fixed name with a truthy value
  in the payload is decoded from that value; and the fixed names left unassigned by
  that, taken in the order A, B, C, get the remote keys that are not fixed names, taken
  in encounter order, one each, a slot being \<open>null\<close> when no such key is left for it.
  In particular a payload object without fixed names fills A, B, C from its entries in
  enumeration order.
\<close>

theorem load_partial_remote_fallback:
  "zones (loadInitialData (Some zone1_payload) s)
     = [''A'' \<mapsto> Some (Pt 1 1, Pt 2 2), ''B'' \<mapsto> None, ''C'' \<mapsto> None]
   \<and> (\<forall>data n. n \<in> set FIXED_ZONE_NAMES \<and> truthy data \<and> truthy (js_get data n)
         \<longrightarrow> normalizeZones data n
               = Some (zoneOfArrays (js_get (js_get data n) ''p1'') (js_get (js_get data n) ''p2'')))
   \<and> (\<forall>data i. i < length (unassignedSlots data)
         \<longrightarrow> normalizeZones data (unassignedSlots data ! i)
               = Some (if i < length (unmatchedKeys data)
                       then decodeEntry (js_get data (unmatchedKeys data ! i))
                       else None))
   \<and> (\<forall>kvs i. (\<forall>k \<in> set (map fst kvs). k \<notin> set FIXED_ZONE_NAMES) \<and> i < length FIXED_ZONE_NAMES
         \<longrightarrow> normalizeZones (Obj kvs) (FIXED_ZONE_NAMES ! i)
               = Some (if i < length kvs then decodeEntry (js_get (Obj kvs) (fst (kvs ! i)))
                       else None))"
proof -
  have "zones (loadInitialData (Some zone1_payload) s)
     = [''A'' \<mapsto> Some (Pt 1 1, Pt 2 2), ''B'' \<mapsto> None, ''C'' \<mapsto> None]"
    by (simp add: loadInitialData_def zone1_normalizes)
  then show ?thesis
    using normalizeZones_direct normalizeZones_fill normalizeZones_fallback by blast
qed

theorem load_partial_remote_fallback_witness:
  "normalizeZones mixed_payload ''B'' = Some (Some (Pt 3 3, Pt 4 4))
   \<and> unassignedSlots mixed_payload = [''A'', ''C'']
   \<and> unmatchedKeys mixed_payload = [''north'', ''south'', ''extra'']
   \<and> normalizeZones mixed_payload (unassignedSlots mixed_payload ! 0)
       = Some (decodeEntry (js_get mixed_payload (unmatchedKeys mixed_payload ! 0)))
   \<and> normalizeZones mixed_payload ''A'' = Some (Some (Pt 1 1, Pt 2 2))
   \<and> normalizeZones mixed_payload ''C'' = Some (Some (Pt 5 5, Pt 6 6))
   \<and> normalizeZones zone1_payload (FIXED_ZONE_NAMES ! 0) = Some (Some (Pt 1 1, Pt 2 2))
   \<and> normalizeZones zone1_payload (FIXED_ZONE_NAMES ! 1) = Some None
   \<and> zones (loadInitialData (Some zone1_payload) initial_editor) ''C'' = Some None"
  using load_partial_remote_fallback [of initial_editor] mixed_lists
  by (simp add: mixed_normalizes mixed_north zone1_normalizes FIXED_ZONE_NAMES_def)

subsection \<open>Keys after a load\<close>

lemma dom_directMatch: "dom (fold (directMatch d) ns m) \<subseteq> dom m \<union> set ns"
proof (induction ns arbitrary: m)
  case Nil
  then show ?case by simp
next
  case (Cons n ns)
  have "dom (directMatch d n m) \<subseteq> insert n (dom m)"
    by (auto simp: directMatch_def split: if_splits)
  with Cons [of "directMatch d n m"] show ?case by auto
qed

lemma dom_fillSlots: "dom (fillSlots d ks i l) \<subseteq> dom l \<union> set FIXED_ZONE_NAMES"
proof (induction ks arbitrary: i l)
  case Nil
  then show ?case by simp
next
  case (Cons k ks)
  show ?case
  proof (cases "k \<in> set FIXED_ZONE_NAMES \<or> skipAssigned l i \<ge> length FIXED_ZONE_NAMES")
    case True
    then show ?thesis using Cons [of i l] by (auto simp: Let_def)
  next
    case False
    let ?j = "skipAssigned l i"
    let ?l' = "l(FIXED_ZONE_NAMES ! ?j \<mapsto> decodeEntry (js_get d k))"
    from False have "FIXED_ZONE_NAMES ! ?j \<in> set FIXED_ZONE_NAMES" by simp
    then have sub: "dom ?l' \<subseteq> dom l \<union> set FIXED_ZONE_NAMES" by auto
    have eq: "fillSlots d (k # ks) i l = fillSlots d ks (?j + 1) ?l'"
      using False by (simp add: Let_def)
    have "dom (fillSlots d ks (?j + 1) ?l') \<subseteq> dom ?l' \<union> set FIXED_ZONE_NAMES"
      by (rule Cons)
    with sub show ?thesis unfolding eq by blast
  qed
qed

lemma dom_ensureSlots: "dom (fold ensureSlot ns l) = dom l \<union> set ns"
proof (induction ns arbitrary: l)
  case Nil
  then show ?case by simp
next
  case (Cons n ns)
  have "dom (ensureSlot n l) = insert n (dom l)"
    by (auto simp: ensureSlot_def split: if_splits)
  with Cons [of "ensureSlot n l"] show ?case by auto
qed

lemma dom_normalizeZones: "dom (normalizeZones d) = set FIXED_ZONE_NAMES"
proof -
  let ?direct = "fold (directMatch d) FIXED_ZONE_NAMES Map.empty"
  let ?filled = "fillSlots d (Object_keys (js_or d (Obj []))) 0 ?direct"
  have "dom ?direct \<subseteq> set FIXED_ZONE_NAMES"
    using dom_directMatch [of d FIXED_ZONE_NAMES Map.empty] by simp
  then have "dom ?filled \<subseteq> set FIXED_ZONE_NAMES"
    using dom_fillSlots [of d _ 0 ?direct] by blast
  then have "dom (fold ensureSlot FIXED_ZONE_NAMES ?filled) = set FIXED_ZONE_NAMES"
    using dom_ensureSlots [of FIXED_ZONE_NAMES ?filled] by blast
  then show ?thesis by (simp add: normalizeZones_def Let_def)
qed

lemma dom_reloadZones: "dom (reloadZones d) = set FIXED_ZONE_NAMES"
  by (auto simp: reloadZones_def reloadSlot_def FIXED_ZONE_NAMES_def split: if_splits)

lemma dom_cleared:
  "dom (fold (\<lambda>n c. c(n \<mapsto> None)) FIXED_ZONE_NAMES Map.empty) = set FIXED_ZONE_NAMES"
  by (auto simp: FIXED_ZONE_NAMES_def)

lemma step_keys_fixed:
  assumes "keys_fixed s"
  shows "keys_fixed (step c ev s)"
proof (cases ev)
  case (SelectZone z)
  then show ?thesis using assms by (auto simp: keys_fixed_def selectZone_def)
next
  case (CanvasClick rect cx cy)
  then show ?thesis using assms
    by (auto simp: keys_fixed_def handleCanvasClick_def Let_def split: option.splits if_splits)
next
  case (ClearZone z confirmed postOk)
  then show ?thesis using assms
    by (auto simp: keys_fixed_def clearZone_def Let_def split: option.splits if_splits)
next
  case (ClearAll confirmed postOk zonesRes)
  then show ?thesis using assms dom_cleared dom_reloadZones
    by (auto simp: keys_fixed_def clearAll_def Let_def split: option.splits if_splits)
next
  case (Save postOk zonesRes)
  then show ?thesis using assms dom_reloadZones
    by (auto simp: keys_fixed_def handleSave_def Let_def split: option.splits if_splits)
next
  case (Load zonesRes)
  then show ?thesis using assms dom_normalizeZones
    by (auto simp: keys_fixed_def loadInitialData_def split: option.splits)
qed

lemma run_keys_fixed: "keys_fixed s \<Longrightarrow> keys_fixed (run c evs s)"
  unfolding run_def by (induction evs arbitrary: s) (simp_all add: step_keys_fixed)

lemma reachable_keys: "dom (zones (run c evs initial_editor)) \<subseteq> set FIXED_ZONE_NAMES"
proof -
  have "keys_fixed initial_editor" by (simp add: keys_fixed_def initial_editor_def)
  then have "keys_fixed (run c evs initial_editor)" by (rule run_keys_fixed)
  then show ?thesis by (simp add: keys_fixed_def)
qed

text \<open>
  C5, as the source has it. After a load that succeeds the keys of the zone record are
  exactly A, B, C, whatever the payload. A load that fails does not touch the state:
  in a freshly opened editor the record stays the empty one of the initial state, where
  every name reads \<open>undefined\<close> and no key is present. In every state the editor
  reaches, no key is outside the fixed names.
\<close>

theorem load_keys_fixed:
  "dom (zones (loadInitialData (Some data) s)) = set FIXED_ZONE_NAMES
   \<and> loadInitialData None s = s
   \<and> zones (loadInitialData None initial_editor) = Map.empty
   \<and> dom (zones (run canEditZones evs initial_editor)) \<subseteq> set FIXED_ZONE_NAMES"
  using dom_normalizeZones reachable_keys
  by (simp add: loadInitialData_def initial_editor_def)

theorem load_keys_fixed_witness:
  "dom (zones (loadInitialData (Some mixed_payload) initial_editor)) = {''A'', ''B'', ''C''}
   \<and> dom (zones (run True [Load None, SelectZone ''B'', CanvasClick (Some canvas_rect) 10 10,
                            CanvasClick (Some canvas_rect) 500 500] initial_editor))
       \<subseteq> {''A'', ''B'', ''C''}"
  using load_keys_fixed [of mixed_payload initial_editor True
      "[Load None, SelectZone ''B'', CanvasClick (Some canvas_rect) 10 10,
        CanvasClick (Some canvas_rect) 500 500]"]
  by (simp add: FIXED_ZONE_NAMES_def)

text \<open>
  The spec's wording of C5 includes the failing load among the loads after which the
  record has an entry for each of A, B, C. In the source the \<open>catch\<close> of
  \<open>loadInitialData\<close> only logs, so after a failed first load the record is \<open>{}\<close>: it
  has no entry for A, and its keys are not the fixed names.
\<close>

theorem load_failure_keys_counterexample:
  "zones (loadInitialData None initial_editor) ''A'' = None
   \<and> dom (zones (loadInitialData None initial_editor)) \<noteq> set FIXED_ZONE_NAMES"
  by (simp add: loadInitialData_def initial_editor_def FIXED_ZONE_NAMES_def)

subsection \<open>Save\<close>

lemma serializeZones_keys:
  "Object_keys (serializeZones zs)
     = filter (\<lambda>n. zs n \<noteq> None \<and> zs n \<noteq> Some None) FIXED_ZONE_NAMES"
  by (auto simp: serializeZones_def serializeSlot_def FIXED_ZONE_NAMES_def split: option.splits)

lemma serializeZones_get:
  assumes "n \<in> set FIXED_ZONE_NAMES" and "zs n = Some (Some (p1, p2))"
  shows "js_get (serializeZones zs) n
           = Obj [(''p1'', Arr [px p1, py p1]), (''p2'', Arr [px p2, py p2])]"
  using assms
  by (auto simp: serializeZones_def serializeSlot_def FIXED_ZONE_NAMES_def split: option.splits)

lemma serializeZones_omits:
  assumes "zs n = None \<or> zs n = Some None \<or> n \<notin> set FIXED_ZONE_NAMES"
  shows "js_get (serializeZones zs) n = Undefined"
  using assms
  by (auto simp: serializeZones_def serializeSlot_def FIXED_ZONE_NAMES_def split: option.splits)

lemma handleSave_posts:
  "\<exists>rest. snd (handleSave postOk zonesRes s) = Post (serializeZones (zones s)) # rest"
  by (simp add: handleSave_def Let_def split: option.splits)

lemma clear_then_serialize:
  assumes "zones s ''B'' = None \<or> zones s ''B'' = Some None"
    and "zones s ''C'' = None \<or> zones s ''C'' = Some None"
  shows "serializeZones (zones (fst (clearZone True True clearOk ''A'' s))) = Obj []"
  using assms
  by (auto simp: clearZone_def Let_def serializeZones_def serializeSlot_def FIXED_ZONE_NAMES_def)

text \<open>
  C4. The body that \<open>handleSave\<close> posts has exactly the fixed names whose zone is
  defined as keys, in the order A, B, C, each with the value
  \<open>{p1: [x, y], p2: [x, y]}\<close> of its two points; a name whose zone is \<open>null\<close> or absent
  is not in the body. So from a zone set where only A is defined, clearing A (confirmed,
  with the permission) and then saving posts the empty object.
\<close>

theorem save_serializes_defined_zones:
  "Object_keys (serializeZones zs)
     = filter (\<lambda>n. zs n \<noteq> None \<and> zs n \<noteq> Some None) FIXED_ZONE_NAMES
   \<and> (\<forall>n p1 p2. n \<in> set FIXED_ZONE_NAMES \<and> zs n = Some (Some (p1, p2))
         \<longrightarrow> js_get (serializeZones zs) n
               = Obj [(''p1'', Arr [px p1, py p1]), (''p2'', Arr [px p2, py p2])])
   \<and> (\<forall>n. zs n = None \<or> zs n = Some None \<or> n \<notin> set FIXED_ZONE_NAMES
         \<longrightarrow> js_get (serializeZones zs) n = Undefined)
   \<and> (\<forall>postOk zonesRes s.
         \<exists>rest. snd (handleSave postOk zonesRes s) = Post (serializeZones (zones s)) # rest)
   \<and> (\<forall>s clearOk postOk zonesRes.
         zones s ''A'' = Some (Some (Pt 0 0, Pt 1 1))
         \<and> (zones s ''B'' = None \<or> zones s ''B'' = Some None)
         \<and> (zones s ''C'' = None \<or> zones s ''C'' = Some None)
         \<longrightarrow> (\<exists>rest. snd (handleSave postOk zonesRes (fst (clearZone True True clearOk ''A'' s)))
                        = Post (Obj []) # rest))"
proof -
  have "\<forall>s clearOk postOk zonesRes.
         zones s ''A'' = Some (Some (Pt 0 0, Pt 1 1))
         \<and> (zones s ''B'' = None \<or> zones s ''B'' = Some None)
         \<and> (zones s ''C'' = None \<or> zones s ''C'' = Some None)
         \<longrightarrow> (\<exists>rest. snd (handleSave postOk zonesRes (fst (clearZone True True clearOk ''A'' s)))
                        = Post (Obj []) # rest)"
  proof (intro allI impI)
    fix s :: editor and clearOk :: bool and postOk :: bool and zonesRes :: "jsvalue option"
    assume h: "zones s ''A'' = Some (Some (Pt 0 0, Pt 1 1))
         \<and> (zones s ''B'' = None \<or> zones s ''B'' = Some None)
         \<and> (zones s ''C'' = None \<or> zones s ''C'' = Some None)"
    then have "serializeZones (zones (fst (clearZone True True clearOk ''A'' s))) = Obj []"
      using clear_then_serialize [of s clearOk] by blast
    then show "\<exists>rest. snd (handleSave postOk zonesRes (fst (clearZone True True clearOk ''A'' s)))
                        = Post (Obj []) # rest"
      using handleSave_posts [of postOk zonesRes "fst (clearZone True True clearOk ''A'' s)"]
      by simp
  qed
  then show ?thesis
    using serializeZones_keys serializeZones_get serializeZones_omits handleSave_posts
    by blast
qed

theorem save_serializes_defined_zones_witness:
  "snd (handleSave True (Some (Obj [])) (fst (clearZone True True True ''A'' clear_scenario_state)))
     = [Post (Obj []), ZonesUpdated (Obj [(''A'', Null), (''B'', Null), (''C'', Null)]), Close]
   \<and> serializeZones (zones clear_scenario_state) = Obj [(''A'', line_value 0 0 1 1)]"
  using save_serializes_defined_zones [of "zones clear_scenario_state"]
  by (simp add: clear_scenario_state_def handleSave_def clearZone_def serializeZones_def
        serializeSlot_def reloadZones_def reloadSlot_def zonesValue_def FIXED_ZONE_NAMES_def
        line_value_def Pt_def Let_def)

subsection \<open>Per-zone clear\<close>

text \<open>
  C6, as the source has it. A confirmed per-zone clear by an operator with the
  permission sets the zone to \<open>null\<close>, leaves the other zones, the selection and the
  transient points as they are, also when the cleared zone is the selected one, and
  posts the remaining defined zones at once, in a body that no longer has the cleared
  name. Without the permission or the confirmation nothing happens.
\<close>

theorem clearZone_effect:
  "zones (fst (clearZone True True postOk n s)) n = Some None
   \<and> (\<forall>m. m \<noteq> n \<longrightarrow> zones (fst (clearZone True True postOk n s)) m = zones s m)
   \<and> tempPoints (fst (clearZone True True postOk n s)) = tempPoints s
   \<and> currentZone (fst (clearZone True True postOk n s)) = currentZone s
   \<and> (\<exists>rest. snd (clearZone True True postOk n s)
                = Post (serializeZones (zones (fst (clearZone True True postOk n s)))) # rest)
   \<and> js_get (serializeZones (zones (fst (clearZone True True postOk n s)))) n = Undefined
   \<and> (\<forall>canEdit confirmed.
         \<not> canEdit \<or> \<not> confirmed \<longrightarrow> clearZone canEdit confirmed postOk n s = (s, []))"
proof -
  have "js_get (serializeZones (zones (fst (clearZone True True postOk n s)))) n = Undefined"
    by (rule serializeZones_omits) (simp add: clearZone_def Let_def)
  then show ?thesis by (simp add: clearZone_def Let_def)
qed

theorem clearZone_effect_witness:
  "zones (fst (clearZone True True True ''A'' preview_state)) ''A'' = Some None
   \<and> snd (clearZone True True True ''A'' preview_state) = [Post (Obj []), ZonesUpdated (Obj [])]
   \<and> clearZone False True True ''A'' preview_state = (preview_state, [])"
  using clearZone_effect [of True "''A''" preview_state]
  by (simp add: clearZone_def preview_state_def serializeZones_def serializeSlot_def
        FIXED_ZONE_NAMES_def Let_def)

text \<open>
  The spec's wording of C6 has the transient points cleared when the cleared zone is
  the selected one. The handler of the trash icon writes \<open>zones\<close> only: with zone A
  selected and its two points held, clearing A leaves the two points held.
\<close>

theorem clearZone_keeps_tempPoints_counterexample:
  "currentZone preview_state = Some ''A''
   \<and> zones (fst (clearZone True True True ''A'' preview_state)) ''A'' = Some None
   \<and> tempPoints (fst (clearZone True True True ''A'' preview_state)) = [Pt 10 10, Pt 500 500]
   \<and> tempPoints (fst (clearZone True True True ''A'' preview_state)) \<noteq> []"
  by (simp add: clearZone_def preview_state_def Let_def)

section \<open>Dashboard reconciliation\<close>

lemma kpiFetchMerge_rule:
  "kpiFetchMerge tLoaded tUnloaded prev \<noteq> prev
     \<Longrightarrow> (num_gt0 tLoaded \<or> num_gt0 tUnloaded)
         \<or> \<not> (num_gt0 (loaded prev) \<or> num_gt0 (unloaded prev))"
  by (auto simp: kpiFetchMerge_def Let_def split: if_splits)

lemma kpiRealtimeMerge_rule:
  "kpiRealtimeMerge newStats prev \<noteq> prev
     \<Longrightarrow> (num_truthy (loaded newStats) \<or> num_truthy (unloaded newStats))
         \<or> \<not> (num_truthy (loaded prev) \<or> num_truthy (unloaded prev))"
  by (auto simp: kpiRealtimeMerge_def Let_def split: if_splits)

lemma platformGridRealtimeMerge_rule:
  "platformGridRealtimeMerge rt held \<noteq> held
     \<Longrightarrow> hasCounts (js_get rt ''platforms'') \<or> \<not> (truthy held \<and> Object_keys held \<noteq> [])"
  by (auto simp: platformGridRealtimeMerge_def Let_def split: if_splits)

text \<open>A snapshot with counts is truthy and has keys.\<close>

lemma hasCounts_keys: "hasCounts v \<Longrightarrow> truthy v \<and> Object_keys v \<noteq> []"
  by (cases "truthy v") (auto simp: hasCounts_def js_or_def Object_values_def list_ex_iff)

text \<open>The REST fetch of the platform grid does not look at the held state.\<close>

lemma fetchAllStats_overwrites:
  "data \<noteq> Undefined \<Longrightarrow> data \<noteq> Null
     \<Longrightarrow> fetchAllStats (Some data) held = js_or (js_get data ''platforms'') (Obj [])"
  by (cases data) (simp_all add: fetchAllStats_def)

text \<open>
  The guarded merges. In the KPI totals (the merge after the REST fetch and the merge
  of a push message) and in the real-time merge of the platform grid, the held snapshot
  is replaced only if the incoming one is non-empty or the held one is empty; so a
  non-empty held snapshot survives an empty incoming one. Empty means no positive count
  for the KPI fetch, no truthy count for the KPI push; for the grid an incoming snapshot
  is empty when no platform in it has a truthy total, and the held state is empty when
  it has no keys (a held state with counts has keys).
\<close>

lemma guarded_merges_keep_held:
  "(kpiFetchMerge tLoaded tUnloaded prev \<noteq> prev
      \<longrightarrow> (num_gt0 tLoaded \<or> num_gt0 tUnloaded)
          \<or> \<not> (num_gt0 (loaded prev) \<or> num_gt0 (unloaded prev)))
   \<and> (kpiRealtimeMerge newStats prev \<noteq> prev
      \<longrightarrow> (num_truthy (loaded newStats) \<or> num_truthy (unloaded newStats))
          \<or> \<not> (num_truthy (loaded prev) \<or> num_truthy (unloaded prev)))
   \<and> (platformGridRealtimeMerge realtimeData held \<noteq> held
      \<longrightarrow> hasCounts (js_get realtimeData ''platforms'')
          \<or> \<not> (truthy held \<and> Object_keys held \<noteq> []))
   \<and> (hasCounts held \<and> \<not> hasCounts (js_get realtimeData ''platforms'')
      \<longrightarrow> platformGridRealtimeMerge realtimeData held = held)"
proof -
  have "hasCounts held \<and> \<not> hasCounts (js_get realtimeData ''platforms'')
      \<longrightarrow> platformGridRealtimeMerge realtimeData held = held"
    using platformGridRealtimeMerge_rule [of realtimeData held] hasCounts_keys [of held]
    by blast
  then show ?thesis
    using kpiFetchMerge_rule [of tLoaded tUnloaded prev] kpiRealtimeMerge_rule [of newStats prev]
      platformGridRealtimeMerge_rule [of realtimeData held]
    by blast
qed

lemma guarded_merges_keep_held_example:
  "kpiFetchMerge (Fin 0) (Fin 0) held_kpi = held_kpi
   \<and> kpiRealtimeMerge \<lparr> loaded = Fin 0, unloaded = Fin 0, balance = Fin 0 \<rparr> held_kpi = held_kpi"
  by (simp add: kpiFetchMerge_def kpiRealtimeMerge_def held_kpi_def Let_def)

text \<open>
  C2. The non-regression rule: at every merge step of the KPI totals and of the platform
  grid a non-empty held snapshot survives an empty incoming one. The REST fetch of the
  platform grid breaks it. With counts held for one platform, the response
  \<open>{platforms: {}}\<close> of \<open>/api/v1/today-summary\<close> carries an empty snapshot, and
  \<open>fetchAllStats\<close> replaces the held state by \<open>{}\<close>; the real-time merge of the same
  component keeps the held state on the same snapshot.
\<close>

theorem platform_grid_fetch_wipes_held_stats:
  "hasCounts held_stats
   \<and> \<not> hasCounts (Obj [])
   \<and> Object_keys (Obj []) = []
   \<and> fetchAllStats (Some (Obj [(''platforms'', Obj [])])) held_stats = Obj []
   \<and> fetchAllStats (Some (Obj [(''platforms'', Obj [])])) held_stats \<noteq> held_stats
   \<and> platformGridRealtimeMerge (Obj [(''platforms'', Obj [])]) held_stats = held_stats"
  by (simp add: held_stats_def hasCounts_def js_or_def Object_values_def fetchAllStats_def
        platformGridRealtimeMerge_def Let_def)

subsection \<open>Zone counts\<close>

lemma shouldShowZoneCount_finite:
  "shouldShowZoneCount (Fin z) (Fin t) \<longleftrightarrow> 0 < z \<and> (t \<le> 0 \<or> t * (25 / 100) \<le> z)"
  by (auto simp: shouldShowZoneCount_def js_div_def ZONE_DISPLAY_THRESHOLD_def field_simps)

lemma shouldShowZoneCount_only:
  "shouldShowZoneCount zc pt
     \<Longrightarrow> num_gt0 zc \<and> (\<not> num_gt0 pt \<or> num_ge (js_divide zc pt) (25 / 100))"
  by (cases zc; cases pt)
     (auto simp: shouldShowZoneCount_def ZONE_DISPLAY_THRESHOLD_def split: if_splits)

text \<open>
  C10. A zone count that is positive but below 25 percent of the positive platform
  total is displayed as 0; a positive count of at least 25 percent of the total is
  displayed as it is, and so is a positive count when the platform total is zero or
  unavailable (an absent total counts as 0). The count is shown only in these cases:
  whenever it is shown, it is positive and either it is at least a quarter of the total
  or the total is not a positive number.
\<close>

theorem zone_count_threshold:
  "(\<forall>z t. 0 < z \<and> 0 < t \<and> z < t * (25 / 100) \<longrightarrow> displayedZoneCount (Fin z) (Fin t) = Fin 0)
   \<and> (\<forall>z t. 0 < z \<and> 0 < t \<and> t * (25 / 100) \<le> z \<longrightarrow> displayedZoneCount (Fin z) (Fin t) = Fin z)
   \<and> (\<forall>z. 0 < z \<longrightarrow> displayedZoneCount (Fin z) (Fin 0) = Fin z
                    \<and> displayedZoneCount (Fin z) (numericTotal None) = Fin z)
   \<and> (\<forall>zc pt. shouldShowZoneCount zc pt
         \<longrightarrow> num_gt0 zc \<and> (\<not> num_gt0 pt \<or> num_ge (js_divide zc pt) (25 / 100)))"
  using shouldShowZoneCount_only
  by (auto simp: displayedZoneCount_def shouldShowZoneCount_finite numericTotal_def)

theorem zone_count_threshold_witness:
  "displayedZoneCount (Fin 3) (Fin 20) = Fin 0
   \<and> displayedZoneCount (Fin 5) (Fin 20) = Fin 5
   \<and> displayedZoneCount (Fin 3) (Fin 0) = Fin 3
   \<and> displayedZoneCount (Fin 3) (numericTotal None) = Fin 3"
  using zone_count_threshold by simp

end
